theory Spec2Isabelle
  imports Main "HOL-Library.Sublist"
begin

section \<open>pdf2bib: text, bytes and errors\<close>

text \<open>
  The script \<^verbatim>\<open>pdf2bib.py\<close> is Python 3.  A \<^verbatim>\<open>str\<close> is modelled as a
  \<^typ>\<open>string\<close> whose characters are the code points below 256; a \<^verbatim>\<open>bytes\<close>
  object is a \<^typ>\<open>string\<close> whose characters are the bytes.  The text that
  \<^verbatim>\<open>bytes.decode("utf-8")\<close> returns is a list of code points (\<^typ>\<open>nat list\<close>),
  since a well-formed byte sequence may encode any code point.  Records with code points
  from 256 on are outside the model.  The operating system is taken to be POSIX
  (\<^verbatim>\<open>os.pathsep\<close> is the colon, \<^verbatim>\<open>os.path\<close> is \<^verbatim>\<open>posixpath\<close>), as Poppler's tools suggest.

  Every exception the script can raise is a value of \<open>error\<close>; a function that may raise
  returns \<open>error + 'a\<close>.
\<close>

datatype error =
    AttributeError        \<comment> \<open>attribute of \<^verbatim>\<open>None\<close>, or a method that \<^verbatim>\<open>str\<close> lacks\<close>
  | KeyError              \<comment> \<open>\<^verbatim>\<open>os.environ["PATH"]\<close> without PATH\<close>
  | IndexError            \<comment> \<open>\<^verbatim>\<open>converter[0]\<close> on an empty list\<close>
  | UnicodeDecodeError    \<comment> \<open>\<^verbatim>\<open>decode("utf-8")\<close> on ill-formed bytes\<close>
  | Exception             \<comment> \<open>the bare \<^verbatim>\<open>raise Exception()\<close> of \<^verbatim>\<open>PDFParser.__init__\<close>\<close>
  | OSError               \<comment> \<open>raised by the subprocess machinery\<close>
  | URLError              \<comment> \<open>raised by \<^verbatim>\<open>urlopen\<close>\<close>

subsection \<open>Character classes of the \<^verbatim>\<open>re\<close> module\<close>

text \<open>
  \<^verbatim>\<open>\d\<close> and \<^verbatim>\<open>\w\<close> of a bytes pattern are the ASCII digits and
  \<^verbatim>\<open>[a-zA-Z0-9_]\<close>.  \<^verbatim>\<open>\w\<close> of a str pattern is every alphanumeric code point and the
  underscore; below 256 these are the ASCII ones and the Latin-1 letters and numerals listed
  in \<open>unicode_word\<close>.
\<close>

definition ascii_digit :: "char \<Rightarrow> bool" where
  "ascii_digit c = (let n = (of_char c :: nat) in 48 \<le> n \<and> n \<le> 57)"

definition ascii_word :: "char \<Rightarrow> bool" where
  "ascii_word c = (let n = (of_char c :: nat) in
     (48 \<le> n \<and> n \<le> 57) \<or> (65 \<le> n \<and> n \<le> 90) \<or> n = 95 \<or> (97 \<le> n \<and> n \<le> 122))"

definition unicode_word :: "char \<Rightarrow> bool" where
  "unicode_word c = (let n = (of_char c :: nat) in
     ascii_word c \<or> n = 0xAA \<or> n = 0xB2 \<or> n = 0xB3 \<or> n = 0xB5 \<or> n = 0xB9 \<or> n = 0xBA
     \<or> n = 0xBC \<or> n = 0xBD \<or> n = 0xBE
     \<or> (0xC0 \<le> n \<and> n \<le> 0xD6) \<or> (0xD8 \<le> n \<and> n \<le> 0xF6) \<or> 0xF8 \<le> n)"

datatype kind = Str | Bytes    \<comment> \<open>a str pattern or a bytes pattern\<close>

datatype item =
    C char     \<comment> \<open>a literal character\<close>
  | W          \<comment> \<open>\<^verbatim>\<open>\w\<close>\<close>
  | D          \<comment> \<open>\<^verbatim>\<open>\d\<close>\<close>

datatype atom =
    One item          \<comment> \<open>a literal or an escape outside brackets\<close>
  | Dot               \<comment> \<open>\<^verbatim>\<open>.\<close>: any character but the newline (no DOTALL flag is used)\<close>
  | Set "item list"   \<comment> \<open>\<^verbatim>\<open>[...]\<close>\<close>

fun item_ok :: "kind \<Rightarrow> item \<Rightarrow> char \<Rightarrow> bool" where
  "item_ok k (C x) c = (c = x)"
| "item_ok Str W c = unicode_word c"
| "item_ok Bytes W c = ascii_word c"
| "item_ok k D c = ascii_digit c"

fun atom_ok :: "kind \<Rightarrow> atom \<Rightarrow> char \<Rightarrow> bool" where
  "atom_ok k (One i) c = item_ok k i c"
| "atom_ok k Dot c = (c \<noteq> CHR 0x0A)"
| "atom_ok k (Set is) c = list_ex (\<lambda>i. item_ok k i c) is"

subsection \<open>Patterns and the backtracking matcher\<close>

text \<open>
  The three patterns of the script use literals, classes, \<^verbatim>\<open>+\<close>, \<^verbatim>\<open>+?\<close> and
  \<^verbatim>\<open>{4}\<close> on single characters, named groups, one alternative and \<^verbatim>\<open>$\<close>.  \<open>re\<close>
  is their abstract syntax.
\<close>

datatype re =
    Eps
  | Atom atom
  | Plus atom              \<comment> \<open>\<^verbatim>\<open>a+\<close>, greedy\<close>
  | PlusLazy atom          \<comment> \<open>\<^verbatim>\<open>a+?\<close>\<close>
  | Times nat atom         \<comment> \<open>\<^verbatim>\<open>a{n}\<close>\<close>
  | Group string re        \<comment> \<open>\<^verbatim>\<open>(?P<name>...)\<close>; an unnamed group goes by its number\<close>
  | Seq re re
  | Alt re re              \<comment> \<open>\<^verbatim>\<open>a|b\<close>\<close>
  | Eol                    \<comment> \<open>\<^verbatim>\<open>$\<close> without MULTILINE\<close>

definition cat :: "re list \<Rightarrow> re" where
  "cat rs = foldr Seq rs Eps"

definition lit :: "string \<Rightarrow> re" where
  "lit s = cat (map (\<lambda>c. Atom (One (C c))) s)"

type_synonym groups = "string \<rightharpoonup> string"

text \<open>
  \<^verbatim>\<open>re\<close> matches by backtracking: a greedy repetition takes the longest run first and
  gives characters back one at a time, a lazy one takes one character and extends, the
  left alternative is tried before the right one.  The matcher is written with a
  continuation \<open>k\<close> for the pattern that follows, which is called on the remaining
  input and the groups set so far; \<open>None\<close> from \<open>k\<close> makes the matcher try its next choice.
\<close>

fun greedy :: "(char \<Rightarrow> bool) \<Rightarrow> string \<Rightarrow> (string \<Rightarrow> 'a option) \<Rightarrow> 'a option" where
  "greedy P [] k = None"
| "greedy P (c # cs) k =
     (if P c then (case greedy P cs k of Some r \<Rightarrow> Some r | None \<Rightarrow> k cs) else None)"

fun lazy :: "(char \<Rightarrow> bool) \<Rightarrow> string \<Rightarrow> (string \<Rightarrow> 'a option) \<Rightarrow> 'a option" where
  "lazy P [] k = None"
| "lazy P (c # cs) k =
     (if P c then (case k cs of Some r \<Rightarrow> Some r | None \<Rightarrow> lazy P cs k) else None)"

fun exactly :: "nat \<Rightarrow> (char \<Rightarrow> bool) \<Rightarrow> string \<Rightarrow> (string \<Rightarrow> 'a option) \<Rightarrow> 'a option" where
  "exactly 0 P s k = k s"
| "exactly (Suc n) P [] k = None"
| "exactly (Suc n) P (c # cs) k = (if P c then exactly n P cs k else None)"

primrec bt :: "kind \<Rightarrow> re \<Rightarrow> string \<Rightarrow> groups \<Rightarrow> (string \<Rightarrow> groups \<Rightarrow> 'a option) \<Rightarrow> 'a option" where
  "bt kd Eps s g k = k s g"
| "bt kd (Atom a) s g k =
     (case s of [] \<Rightarrow> None | c # cs \<Rightarrow> if atom_ok kd a c then k cs g else None)"
| "bt kd (Plus a) s g k = greedy (atom_ok kd a) s (\<lambda>s'. k s' g)"
| "bt kd (PlusLazy a) s g k = lazy (atom_ok kd a) s (\<lambda>s'. k s' g)"
| "bt kd (Times n a) s g k = exactly n (atom_ok kd a) s (\<lambda>s'. k s' g)"
| "bt kd (Group name r) s g k =
     bt kd r s g (\<lambda>s' g'. k s' (g'(name \<mapsto> take (length s - length s') s)))"
| "bt kd (Seq a b) s g k = bt kd a s g (\<lambda>s' g'. bt kd b s' g' k)"
| "bt kd (Alt a b) s g k =
     (case bt kd a s g k of Some r \<Rightarrow> Some r | None \<Rightarrow> bt kd b s g k)"
| "bt kd Eol s g k = (if s = [] \<or> s = [CHR 0x0A] then k s g else None)"

text \<open>
  A match object: the text matched (\<^verbatim>\<open>m.group()\<close>), the groups, and the input after
  the match (\<^verbatim>\<open>string[m.end():]\<close>).
\<close>

record match_obj =
  group0 :: string
  named :: groups
  after :: string

definition match_at :: "kind \<Rightarrow> re \<Rightarrow> string \<Rightarrow> match_obj option" where
  "match_at kd r s =
     bt kd r s Map.empty
       (\<lambda>s' g. Some \<lparr>group0 = take (length s - length s') s, named = g, after = s'\<rparr>)"

text \<open>\<^verbatim>\<open>pattern.search\<close>: the match at the leftmost position that has one.\<close>

fun search :: "kind \<Rightarrow> re \<Rightarrow> string \<Rightarrow> match_obj option" where
  "search kd r [] = match_at kd r []"
| "search kd r (c # cs) =
     (case match_at kd r (c # cs) of Some m \<Rightarrow> Some m | None \<Rightarrow> search kd r cs)"

text \<open>
  \<^verbatim>\<open>pattern.finditer\<close>: the matches from left to right, each search starting where the
  previous match ended.  The patterns iterated here match no empty string, so every match
  shortens the input; the iteration stops on a match that would not.
\<close>

function finditer :: "kind \<Rightarrow> re \<Rightarrow> string \<Rightarrow> match_obj list" where
  "finditer kd r s =
     (case search kd r s of
        None \<Rightarrow> []
      | Some m \<Rightarrow> m # (if length (after m) < length s then finditer kd r (after m) else []))"
  by pat_completeness auto
termination
  by (relation "measure (\<lambda>(kd, r, s). length s)") auto

declare finditer.simps [simp del]

section \<open>BibEntry\<close>

text \<open>
  \<^verbatim>\<open>parts = re.compile("@(?P<type>[\w\-]+)\{(?P<id>[\w\- ]+), (?P<args>.+)\}")\<close> and
  \<^verbatim>\<open>keys = re.compile("(?P<key>[\w\-]+)=\{(?P<value>.+?)\}(, |$)")\<close>
\<close>

definition parts :: re where
  "parts = cat [lit ''@'', Group ''type'' (Plus (Set [W, C CHR ''-''])), lit ''{'',
                Group ''id'' (Plus (Set [W, C CHR ''-'', C CHR '' ''])), lit '', '',
                Group ''args'' (Plus Dot), lit ''}'']"

definition keys :: re where
  "keys = cat [Group ''key'' (Plus (Set [W, C CHR ''-''])), lit ''={'',
               Group ''value'' (PlusLazy Dot), lit ''}'',
               Group ''3'' (Alt (lit '', '') Eol)]"

text \<open>
  \<^verbatim>\<open>self.args\<close> is a dict: its keys are distinct and it iterates in insertion order.  It is
  an association list; assigning to a key that is present replaces the value in place,
  assigning to a new key appends.
\<close>

fun dict_set :: "('k \<times> 'v) list \<Rightarrow> 'k \<Rightarrow> 'v \<Rightarrow> ('k \<times> 'v) list" where
  "dict_set [] k v = [(k, v)]"
| "dict_set ((k', v') # d) k v = (if k' = k then (k, v) # d else (k', v') # dict_set d k v)"

record bibentry =
  id' :: string
  type :: string
  args :: "(string \<times> string) list"

text \<open>
  \<^verbatim>\<open>match.group(name)\<close> of a group that took part in the match; all groups read below are
  outside alternatives, so they are set by every match.
\<close>

definition group :: "match_obj \<Rightarrow> string \<Rightarrow> string" where
  "group m name = the (named m name)"

text \<open>
  \<^verbatim>\<open>BibEntry.__init__\<close>.  When \<^verbatim>\<open>parts.search\<close> finds nothing, \<^verbatim>\<open>match\<close> is
  \<^verbatim>\<open>None\<close> and \<^verbatim>\<open>match.group('args')\<close> raises before any attribute is assigned.
\<close>

definition BibEntry :: "string \<Rightarrow> error + bibentry" where
  "BibEntry entry =
     (case search Str parts entry of
        None \<Rightarrow> Inl AttributeError
      | Some match \<Rightarrow>
          let ms = finditer Str keys (group match ''args'')
          in Inr \<lparr>id' = group match ''id'', type = group match ''type'',
                  args = foldl (\<lambda>d m. dict_set d (group m ''key'') (group m ''value'')) [] ms\<rparr>)"

text \<open>\<^verbatim>\<open>BibEntry.format\<close>: the loop appends one line for each field that is not excluded.\<close>

definition format_step :: "string list \<Rightarrow> string \<Rightarrow> string \<times> string \<Rightarrow> string" where
  "format_step exclude result kv =
     (if fst kv \<notin> set exclude
      then result @ [CHR 0x0A] @ ''    '' @ fst kv @ ''={'' @ snd kv @ ''}''
      else result)"

definition format :: "bibentry \<Rightarrow> string list \<Rightarrow> string" where
  "format self exclude =
     (let result = ''@'' @ type self @ ''{'' @ id' self @ '','';
          result = foldl (format_step exclude) result (args self)
      in result @ [CHR 0x0A] @ ''}'')"

definition add_arg :: "bibentry \<Rightarrow> string \<Rightarrow> string \<Rightarrow> bibentry" where
  "add_arg self key value = self\<lparr>args := dict_set (args self) key value\<rparr>"

section \<open>PDFParser\<close>

subsection \<open>Finding the DOI in the converter's output\<close>

text \<open>\<^verbatim>\<open>doi_regex = re.compile(b"10.\d{4}/[\w\-\.]+")\<close>: the dot after \<^verbatim>\<open>10\<close> is not escaped.\<close>

definition doi_regex :: re where
  "doi_regex = cat [lit ''10'', Atom Dot, Times 4 (One D), lit ''/'',
                    Plus (Set [W, C CHR ''-'', C CHR ''.''])]"

text \<open>
  \<^verbatim>\<open>bytes.decode("utf-8")\<close>, strict: the well-formed sequences of one to four bytes, with
  no overlong form, no surrogate and nothing above U+10FFFF; \<open>None\<close> is the
  \<^verbatim>\<open>UnicodeDecodeError\<close>.
\<close>

definition continuation :: "char \<Rightarrow> bool" where
  "continuation b = (let n = (of_char b :: nat) in 0x80 \<le> n \<and> n \<le> 0xBF)"

fun utf8_decode :: "string \<Rightarrow> nat list option" where
  "utf8_decode [] = Some []"
| "utf8_decode (b0 # bs) =
     (let n0 = (of_char b0 :: nat) in
      if n0 < 0x80 then map_option ((#) n0) (utf8_decode bs)
      else if 0xC2 \<le> n0 \<and> n0 \<le> 0xDF then
        (case bs of
           b1 # r \<Rightarrow>
             if continuation b1
             then map_option ((#) ((n0 - 0xC0) * 64 + (of_char b1 - 0x80))) (utf8_decode r)
             else None
         | _ \<Rightarrow> None)
      else if 0xE0 \<le> n0 \<and> n0 \<le> 0xEF then
        (case bs of
           b1 # b2 # r \<Rightarrow>
             if continuation b1 \<and> continuation b2
                \<and> (n0 = 0xE0 \<longrightarrow> 0xA0 \<le> (of_char b1 :: nat))
                \<and> (n0 = 0xED \<longrightarrow> (of_char b1 :: nat) \<le> 0x9F)
             then map_option
                    ((#) ((n0 - 0xE0) * 4096 + (of_char b1 - 0x80) * 64 + (of_char b2 - 0x80)))
                    (utf8_decode r)
             else None
         | _ \<Rightarrow> None)
      else if 0xF0 \<le> n0 \<and> n0 \<le> 0xF4 then
        (case bs of
           b1 # b2 # b3 # r \<Rightarrow>
             if continuation b1 \<and> continuation b2 \<and> continuation b3
                \<and> (n0 = 0xF0 \<longrightarrow> 0x90 \<le> (of_char b1 :: nat))
                \<and> (n0 = 0xF4 \<longrightarrow> (of_char b1 :: nat) \<le> 0x8F)
             then map_option
                    ((#) ((n0 - 0xF0) * 262144 + (of_char b1 - 0x80) * 4096
                          + (of_char b2 - 0x80) * 64 + (of_char b3 - 0x80)))
                    (utf8_decode r)
             else None
         | _ \<Rightarrow> None)
      else None)"

text \<open>
  Lines 134 to 138 of \<^verbatim>\<open>get_doi\<close>, on the bytes \<open>out\<close> that the converter wrote:
  \<^verbatim>\<open>None\<close> when the pattern is found nowhere, else the first match decoded.
\<close>

definition find_doi :: "string \<Rightarrow> error + nat list option" where
  "find_doi out =
     (case search Bytes doi_regex out of
        None \<Rightarrow> Inr None
      | Some match \<Rightarrow>
          (case utf8_decode (group0 match) of
             None \<Rightarrow> Inl UnicodeDecodeError
           | Some doi \<Rightarrow> Inr (Some doi)))"

subsection \<open>The process environment\<close>

text \<open>
  What the script reads from outside: the PATH variable, the file system predicates,
  \<^verbatim>\<open>os.walk\<close>, the converter subprocess and the lookup service.  \<open>communicate\<close> stands
  for lines 130 to 132 of \<^verbatim>\<open>get_doi\<close>: the command built from the bound converter for
  one file, run to its end, and the bytes it wrote to standard output (or the exception
  raised on the way).  \<open>urlopen_read\<close> is the request to a URL and its decoded response body.
\<close>

record env =
  environ_PATH :: "string option"
  isfile :: "string \<Rightarrow> bool"
  access_X_OK :: "string \<Rightarrow> bool"
  isdir :: "string \<Rightarrow> bool"
  walk :: "string \<Rightarrow> (string \<times> string list \<times> string list) list"
  communicate :: "string list \<Rightarrow> string \<Rightarrow> error + string"
  urlopen_read :: "nat list \<Rightarrow> error + string"

subsection \<open>String and path helpers of the standard library (POSIX)\<close>

text \<open>\<^verbatim>\<open>s.split(sep)\<close> for a one-character separator: never an empty list.\<close>

primrec split_from :: "char \<Rightarrow> string \<Rightarrow> string \<Rightarrow> string list" where
  "split_from sep cur [] = [cur]"
| "split_from sep cur (c # cs) =
     (if c = sep then cur # split_from sep [] cs else split_from sep (cur @ [c]) cs)"

definition split :: "string \<Rightarrow> char \<Rightarrow> string list" where
  "split s sep = split_from sep [] s"

definition rstrip :: "string \<Rightarrow> char \<Rightarrow> string" where
  "rstrip s ch = rev (dropWhile (\<lambda>c. c = ch) (rev s))"

definition strip :: "string \<Rightarrow> char \<Rightarrow> string" where
  "strip s ch = rstrip (dropWhile (\<lambda>c. c = ch) s) ch"

text \<open>\<^verbatim>\<open>sub in s\<close> for strings.\<close>

fun contains :: "string \<Rightarrow> string \<Rightarrow> bool" where
  "contains sub [] = (sub = [])"
| "contains sub (c # cs) = (prefix sub (c # cs) \<or> contains sub cs)"

definition os_path_split :: "string \<Rightarrow> string \<times> string" where
  "os_path_split p =
     (let tail = rev (takeWhile (\<lambda>c. c \<noteq> CHR ''/'') (rev p));
          head = rev (dropWhile (\<lambda>c. c \<noteq> CHR ''/'') (rev p))
      in (if head \<noteq> [] \<and> \<not> list_all (\<lambda>c. c = CHR ''/'') head then rstrip head CHR ''/'' else head,
          tail))"

definition os_path_join :: "string \<Rightarrow> string \<Rightarrow> string" where
  "os_path_join a b =
     (if (case b of [] \<Rightarrow> False | c # _ \<Rightarrow> c = CHR ''/'') then b
      else if a = [] \<or> last a = CHR ''/'' then a @ b
      else a @ ''/'' @ b)"

subsection \<open>Choosing the converter\<close>

definition is_exe :: "env \<Rightarrow> string \<Rightarrow> bool" where
  "is_exe e fpath = (isfile e fpath \<and> access_X_OK e fpath)"

text \<open>The loop of \<^verbatim>\<open>which\<close> over the directories of PATH.\<close>

fun which_paths :: "env \<Rightarrow> string \<Rightarrow> string list \<Rightarrow> string option" where
  "which_paths e program [] = None"
| "which_paths e program (path # paths) =
     (let path = strip path (CHR 0x22);
          exe_file = os_path_join path program
      in if is_exe e exe_file then Some exe_file else which_paths e program paths)"

definition which :: "env \<Rightarrow> string \<Rightarrow> error + string option" where
  "which e program =
     (let (fpath, fname) = os_path_split program
      in if fpath \<noteq> [] then (if is_exe e program then Inr (Some program) else Inr None)
         else (case environ_PATH e of
                 None \<Rightarrow> Inl KeyError
               | Some p \<Rightarrow> Inr (which_paths e program (split p CHR '':''))))"

definition converters :: "string list list" where
  "converters = [[''pdftotext'', ''-l'', ''1'', ''{pdf}'', ''-''],
                 [''pdftohtml'', ''-stdout'', ''-i'', ''-l'', ''1'', ''{pdf}'']]"

record pdfparser =
  converter :: "string list"

text \<open>
  \<^verbatim>\<open>PDFParser.__init__\<close>: the first converter whose program \<^verbatim>\<open>which\<close> locates, with
  the location in place of the program name.  \<^verbatim>\<open>if location\<close> is false for \<^verbatim>\<open>None\<close>
  and for the empty string.  (The list bound to \<^verbatim>\<open>self.converter\<close> is the one held by
  the class attribute, which the assignment changes as well; the script builds one parser.)
\<close>

fun init_loop :: "env \<Rightarrow> string list list \<Rightarrow> error + pdfparser" where
  "init_loop e [] = Inl Exception"
| "init_loop e (conv # rest) =
     (case conv of
        [] \<Rightarrow> Inl IndexError
      | program # cargs \<Rightarrow>
          (case which e program of
             Inl err \<Rightarrow> Inl err
           | Inr location \<Rightarrow>
               (case location of
                  None \<Rightarrow> init_loop e rest
                | Some l \<Rightarrow> if l \<noteq> [] then Inr \<lparr>converter = l # cargs\<rparr> else init_loop e rest)))"

definition PDFParser :: "env \<Rightarrow> error + pdfparser" where
  "PDFParser e = init_loop e converters"

definition get_doi :: "env \<Rightarrow> pdfparser \<Rightarrow> string \<Rightarrow> error + nat list option" where
  "get_doi e self pdf_file =
     (case communicate e (converter self) pdf_file of
        Inl err \<Rightarrow> Inl err
      | Inr out \<Rightarrow> find_doi out)"

section \<open>BibLookup\<close>

definition get_bibtex :: "env \<Rightarrow> nat list \<Rightarrow> error + string" where
  "get_bibtex e doi = urlopen_read e (map of_char ''http://dx.doi.org/'' @ doi)"

section \<open>main\<close>

text \<open>
  The state that \<^verbatim>\<open>main\<close> changes: what has been written to \<^verbatim>\<open>args.output\<close>, one
  element for each \<^verbatim>\<open>write\<close>, and what has been printed.  An exception leaves \<^verbatim>\<open>main\<close>
  with the state reached when it was raised; there is no \<^verbatim>\<open>try\<close> in the script.
\<close>

datatype message =
    Analyzing string        \<comment> \<open>\<^verbatim>\<open>"Analyzing {}..."\<close>\<close>
  | Found_DOI "nat list"    \<comment> \<open>\<^verbatim>\<open>"  .. Found DOI: {}"\<close>\<close>
  | Fetching_Metadata       \<comment> \<open>\<^verbatim>\<open>"  .. Fetching Metadata..."\<close>\<close>
  | Wrote_Entry             \<comment> \<open>\<^verbatim>\<open>"  .. Wrote Entry. "\<close>\<close>
  | No_DOI_found            \<comment> \<open>\<^verbatim>\<open>"  !! No DOI found!"\<close>\<close>

record state =
  output' :: "string list"
  console :: "message list"

record arguments =
  location :: "string list"
  exclude :: "string option"    \<comment> \<open>\<^verbatim>\<open>None\<close> unless \<^verbatim>\<open>-e\<close> is given\<close>

definition print :: "message \<Rightarrow> state \<Rightarrow> state" where
  "print m st = st\<lparr>console := console st @ [m]\<rparr>"

definition output_write :: "string \<Rightarrow> state \<Rightarrow> state" where
  "output_write s st = st\<lparr>output' := output' st @ [s]\<rparr>"

text \<open>
  Gathering the files.  For a location that is a regular file the condition goes on to
  \<^verbatim>\<open>location.tolower()\<close>, and \<^verbatim>\<open>str\<close> has no such method.
\<close>

fun gather :: "env \<Rightarrow> string list \<Rightarrow> string list \<Rightarrow> error + string list" where
  "gather e [] f = Inr f"
| "gather e (loc # locs) f =
     (if isfile e loc then Inl AttributeError
      else if isdir e loc then
        gather e locs
          (foldl (\<lambda>f (path, _, files).
                    f @ map (os_path_join path) (filter (contains ''.pdf'') files))
                 f (walk e loc))
      else gather e locs f)"

text \<open>The body of the second loop, for one file.\<close>

definition process_file ::
    "env \<Rightarrow> pdfparser \<Rightarrow> arguments \<Rightarrow> string \<Rightarrow> state \<Rightarrow> error option \<times> state" where
  "process_file e parser a file st =
     (let st = print (Analyzing file) st in
      case get_doi e parser file of
        Inl err \<Rightarrow> (Some err, st)
      | Inr doi \<Rightarrow>
          (if doi \<noteq> None \<and> doi \<noteq> Some [] then
             (let st = print (Found_DOI (the doi)) st;
                  st = print Fetching_Metadata st in
              case get_bibtex e (the doi) of
                Inl err \<Rightarrow> (Some err, st)
              | Inr text \<Rightarrow>
                  (case BibEntry text of
                     Inl err \<Rightarrow> (Some err, st)
                   | Inr b \<Rightarrow>
                       (let b = add_arg b ''file'' file in
                        case exclude a of
                          None \<Rightarrow> (Some AttributeError, st)
                        | Some ex \<Rightarrow>
                            (let st = output_write (format b (split ex CHR '','')) st;
                                 st = output_write [CHR 0x0A, CHR 0x0A] st;
                                 st = print Wrote_Entry st
                             in (None, st)))))
           else (None, print No_DOI_found st)))"

fun process_files ::
    "env \<Rightarrow> pdfparser \<Rightarrow> arguments \<Rightarrow> string list \<Rightarrow> state \<Rightarrow> error option \<times> state" where
  "process_files e parser a [] st = (None, st)"
| "process_files e parser a (file # files) st =
     (case process_file e parser a file st of
        (Some err, st') \<Rightarrow> (Some err, st')
      | (None, st') \<Rightarrow> process_files e parser a files st')"

definition main :: "env \<Rightarrow> arguments \<Rightarrow> state \<Rightarrow> error option \<times> state" where
  "main e a st =
     (case PDFParser e of
        Inl err \<Rightarrow> (Some err, st)
      | Inr parser \<Rightarrow>
          (case gather e (location a) [] of
             Inl err \<Rightarrow> (Some err, st)
           | Inr f \<Rightarrow> process_files e parser a f st))"

section \<open>Vocabulary of the statements\<close>

subsection \<open>What a pattern describes\<close>

text \<open>
  The matcher is compared with a declarative reading of a pattern: \<open>sem kd r w s' g g'\<close>
  says that \<open>r\<close> can match the word \<open>w\<close> when \<open>s'\<close> is the input that follows it, and
  that the groups \<open>g\<close> become \<open>g'\<close>.
\<close>

primrec sem :: "kind \<Rightarrow> re \<Rightarrow> string \<Rightarrow> string \<Rightarrow> groups \<Rightarrow> groups \<Rightarrow> bool" where
  "sem kd Eps w s' g g' = (w = [] \<and> g' = g)"
| "sem kd (Atom a) w s' g g' = (\<exists>c. w = [c] \<and> atom_ok kd a c \<and> g' = g)"
| "sem kd (Plus a) w s' g g' = (w \<noteq> [] \<and> list_all (atom_ok kd a) w \<and> g' = g)"
| "sem kd (PlusLazy a) w s' g g' = (w \<noteq> [] \<and> list_all (atom_ok kd a) w \<and> g' = g)"
| "sem kd (Times n a) w s' g g' = (length w = n \<and> list_all (atom_ok kd a) w \<and> g' = g)"
| "sem kd (Group name r) w s' g g' = (\<exists>g1. sem kd r w s' g g1 \<and> g' = g1(name \<mapsto> w))"
| "sem kd (Seq a b) w s' g g' =
     (\<exists>u v g1. w = u @ v \<and> sem kd a u (v @ s') g g1 \<and> sem kd b v s' g1 g')"
| "sem kd (Alt a b) w s' g g' = (sem kd a w s' g g' \<or> sem kd b w s' g g')"
| "sem kd Eol w s' g g' = (w = [] \<and> (s' = [] \<or> s' = [CHR 0x0A]) \<and> g' = g)"

text \<open>The classes \<^verbatim>\<open>[\w\-]\<close> and \<^verbatim>\<open>[\w\- ]\<close> of a str pattern, and \<^verbatim>\<open>[\w\-\.]\<close> of a bytes pattern.\<close>

definition type_char :: "char \<Rightarrow> bool" where
  "type_char c = (unicode_word c \<or> c = CHR ''-'')"

definition id_char :: "char \<Rightarrow> bool" where
  "id_char c = (unicode_word c \<or> c = CHR ''-'' \<or> c = CHR '' '')"

definition doi_char :: "char \<Rightarrow> bool" where
  "doi_char c = (ascii_word c \<or> c = CHR ''-'' \<or> c = CHR ''.'')"

subsection \<open>Records as text\<close>

text \<open>
  The outer grammar of a record, \<^verbatim>\<open>@<type>{<key>, <args>}\<close> somewhere in the text: the
  type is made of word characters and hyphens, the key may have spaces as well, and the
  arguments are a non-empty piece of one line.
\<close>

definition outer_grammar :: "string \<Rightarrow> bool" where
  "outer_grammar text =
     (\<exists>pre t i a post.
        text = pre @ ''@'' @ t @ ''{'' @ i @ '', '' @ a @ ''}'' @ post
        \<and> t \<noteq> [] \<and> list_all type_char t
        \<and> i \<noteq> [] \<and> list_all id_char i
        \<and> a \<noteq> [] \<and> CHR 0x0A \<notin> set a)"





text \<open>One field line of \<^verbatim>\<open>format\<close>: a newline, four spaces, the key, \<^verbatim>\<open>={\<close>, the value, \<^verbatim>\<open>}\<close>.\<close>

definition field_line :: "string \<times> string \<Rightarrow> string" where
  "field_line kv = [CHR 0x0A] @ ''    '' @ fst kv @ ''={'' @ snd kv @ ''}''"

subsection \<open>Paths and files\<close>

text \<open>The path that \<^verbatim>\<open>which\<close> tries for a PATH entry.\<close>

definition candidate :: "string \<Rightarrow> string \<Rightarrow> string" where
  "candidate dir program = os_path_join (strip dir (CHR 0x22)) program"

text \<open>The files that the walk of one directory argument contributes.\<close>

definition walked :: "env \<Rightarrow> string \<Rightarrow> string list" where
  "walked e loc =
     concat (map (\<lambda>(path, dirs, files). map (os_path_join path) (filter (contains ''.pdf'') files))
                 (walk e loc))"

subsection \<open>Concrete records and environments\<close>

text \<open>
  The record of the specification's example, its text as \<^verbatim>\<open>format\<close> writes it with
  nothing excluded, an answer of the lookup service that is no record, and fields whose
  values nest braces.
\<close>

definition smith2020 :: bibentry where
  "smith2020 = \<lparr>id' = ''smith2020'', type = ''article'',
                 args = [(''title'', ''A Study''), (''year'', ''2020'')]\<rparr>"


definition not_found_page :: string where
  "not_found_page = ''<html><head><title>Error: DOI Not Found</title></head></html>''"


text \<open>
  \<open>env0\<close>: both converters are installed in \<^verbatim>\<open>/usr/bin\<close>, the directory \<^verbatim>\<open>lib\<close>
  holds two PDF files and a text file, the converter cannot be run on the first PDF file
  and finds a DOI in every other one, and the lookup service answers every request with one
  record.  \<open>env_html\<close> has \<^verbatim>\<open>pdftohtml\<close> alone, in the second directory of PATH;
  the PATH of \<open>env_relative\<close> is a relative directory.  \<open>env1\<close> is \<open>env0\<close> with
  a converter that runs on every file and finds no DOI in the first one.
\<close>

definition env0 :: env where
  "env0 = \<lparr>environ_PATH = Some ''/usr/local/bin:/usr/bin'',
            isfile = (\<lambda>p. p \<in> set [''/usr/bin/pdftotext'', ''/usr/bin/pdftohtml'', ''paper.pdf'']),
            access_X_OK = (\<lambda>p. p \<in> set [''/usr/bin/pdftotext'', ''/usr/bin/pdftohtml'']),
            isdir = (\<lambda>p. p = ''lib''),
            walk = (\<lambda>p. if p = ''lib'' then [(''lib'', [], [''a.pdf'', ''b.pdf'', ''notes.txt''])] else []),
            communicate = (\<lambda>conv file. if file = ''lib/a.pdf'' then Inl OSError else Inr ''doi:10.1000/xyz123 ''),
            urlopen_read = (\<lambda>url. Inr ''@article{smith2020, title={A Study}, year={2020}}'')\<rparr>"

definition env_html :: env where
  "env_html = \<lparr>environ_PATH = Some ''/usr/local/bin:/opt/poppler/bin'',
                isfile = (\<lambda>p. p = ''/opt/poppler/bin/pdftohtml''),
                access_X_OK = (\<lambda>p. p = ''/opt/poppler/bin/pdftohtml''),
                isdir = (\<lambda>p. False),
                walk = (\<lambda>p. []),
                communicate = (\<lambda>conv file. Inr []),
                urlopen_read = (\<lambda>url. Inl URLError)\<rparr>"

definition env_relative :: env where
  "env_relative = \<lparr>environ_PATH = Some ''bin'',
            isfile = (\<lambda>p. p = ''bin/pdftotext''),
            access_X_OK = (\<lambda>p. p = ''bin/pdftotext''),
            isdir = (\<lambda>p. False),
            walk = (\<lambda>p. []),
            communicate = (\<lambda>conv file. Inr []),
            urlopen_read = (\<lambda>url. Inl URLError)\<rparr>"

definition env1 :: env where
  "env1 = env0\<lparr>communicate := (\<lambda>conv file. if file = ''lib/a.pdf'' then Inr ''no identifier here''
                                           else Inr ''doi:10.1000/xyz123 '')\<rparr>"

definition st0 :: state where "st0 = \<lparr>output' = [], console = []\<rparr>"

definition parser0 :: pdfparser where
  "parser0 = \<lparr>converter = [''/usr/bin/pdftotext'', ''-l'', ''1'', ''{pdf}'', ''-'']\<rparr>"

definition args_file :: arguments where
  "args_file = \<lparr>location = [''lib'', ''paper.pdf''], exclude = Some ''file,url''\<rparr>"

definition args_lib :: arguments where
  "args_lib = \<lparr>location = [''lib''], exclude = Some ''file,url''\<rparr>"


section \<open>Properties\<close>

subsection \<open>The matcher finds only what the pattern describes\<close>

lemma greedy_sound:
  "greedy P s k = Some x \<Longrightarrow> \<exists>w s'. s = w @ s' \<and> w \<noteq> [] \<and> list_all P w \<and> k s' = Some x"
proof (induction s)
  case Nil then show ?case by simp
next
  case (Cons c cs)
  then have Pc: "P c" by (simp split: if_splits)
  show ?case
  proof (cases "greedy P cs k")
    case None
    with Cons.prems Pc have "k cs = Some x" by simp
    with Pc have "c # cs = [c] @ cs \<and> [c] \<noteq> [] \<and> list_all P [c] \<and> k cs = Some x" by simp
    then show ?thesis by blast
  next
    case (Some y)
    with Cons.prems Pc have "greedy P cs k = Some x" by simp
    from Cons.IH[OF this] obtain w s' where "cs = w @ s'" "list_all P w" "k s' = Some x" by blast
    with Pc have "c # cs = (c # w) @ s' \<and> c # w \<noteq> [] \<and> list_all P (c # w) \<and> k s' = Some x" by simp
    then show ?thesis by blast
  qed
qed

lemma lazy_sound:
  "lazy P s k = Some x \<Longrightarrow> \<exists>w s'. s = w @ s' \<and> w \<noteq> [] \<and> list_all P w \<and> k s' = Some x"
proof (induction s)
  case Nil then show ?case by simp
next
  case (Cons c cs)
  then have Pc: "P c" by (simp split: if_splits)
  show ?case
  proof (cases "k cs")
    case (Some y)
    with Cons.prems Pc have "k cs = Some x" by simp
    with Pc have "c # cs = [c] @ cs \<and> [c] \<noteq> [] \<and> list_all P [c] \<and> k cs = Some x" by simp
    then show ?thesis by blast
  next
    case None
    with Cons.prems Pc have "lazy P cs k = Some x" by simp
    from Cons.IH[OF this] obtain w s' where "cs = w @ s'" "list_all P w" "k s' = Some x" by blast
    with Pc have "c # cs = (c # w) @ s' \<and> c # w \<noteq> [] \<and> list_all P (c # w) \<and> k s' = Some x" by simp
    then show ?thesis by blast
  qed
qed

lemma exactly_sound:
  "exactly n P s k = Some x \<Longrightarrow> \<exists>w s'. s = w @ s' \<and> length w = n \<and> list_all P w \<and> k s' = Some x"
proof (induction n P s k rule: exactly.induct)
  case (1 P s k) then show ?case by simp
next
  case (2 n P k) then show ?case by simp
next
  case (3 n P c cs k)
  then have Pc: "P c" and "exactly n P cs k = Some x" by (simp_all split: if_splits)
  with "3.IH" obtain w s' where "cs = w @ s'" "length w = n" "list_all P w" "k s' = Some x" by blast
  with Pc have "c # cs = (c # w) @ s' \<and> length (c # w) = Suc n \<and> list_all P (c # w) \<and> k s' = Some x" by simp
  then show ?case by blast
qed

lemma bt_sound:
  "bt kd r s g k = Some x \<Longrightarrow> \<exists>w s' g'. s = w @ s' \<and> sem kd r w s' g g' \<and> k s' g' = Some x"
proof (induction r arbitrary: s g k x)
  case Eps
  then show ?case by auto
next
  case (Atom a)
  then obtain c cs where "s = c # cs" "atom_ok kd a c" "k cs g = Some x"
    by (auto split: list.splits if_splits)
  then have "s = [c] @ cs \<and> sem kd (Atom a) [c] cs g g \<and> k cs g = Some x" by simp
  then show ?case by blast
next
  case (Plus a)
  then have "greedy (atom_ok kd a) s (\<lambda>s'. k s' g) = Some x" by simp
  from greedy_sound[OF this] show ?case by auto
next
  case (PlusLazy a)
  then have "lazy (atom_ok kd a) s (\<lambda>s'. k s' g) = Some x" by simp
  from lazy_sound[OF this] show ?case by auto
next
  case (Times n a)
  then have "exactly n (atom_ok kd a) s (\<lambda>s'. k s' g) = Some x" by simp
  from exactly_sound[OF this] show ?case by auto
next
  case (Group name r)
  then have "bt kd r s g (\<lambda>s' g'. k s' (g'(name \<mapsto> take (length s - length s') s))) = Some x"
    by simp
  from Group.IH[OF this] obtain w s' g1 where
    w: "s = w @ s'" "sem kd r w s' g g1" "k s' (g1(name \<mapsto> take (length s - length s') s)) = Some x"
    by blast
  then have "take (length s - length s') s = w" by simp
  with w have "s = w @ s' \<and> sem kd (Group name r) w s' g (g1(name \<mapsto> w)) \<and> k s' (g1(name \<mapsto> w)) = Some x"
    by auto
  then show ?case by blast
next
  case (Seq a b)
  then have "bt kd a s g (\<lambda>s' g'. bt kd b s' g' k) = Some x" by simp
  from Seq.IH(1)[OF this] obtain u s1 g1 where
    u: "s = u @ s1" "sem kd a u s1 g g1" "bt kd b s1 g1 k = Some x" by blast
  from Seq.IH(2)[OF u(3)] obtain v s' g' where
    v: "s1 = v @ s'" "sem kd b v s' g1 g'" "k s' g' = Some x" by blast
  from u v have "s = (u @ v) @ s' \<and> sem kd (Seq a b) (u @ v) s' g g' \<and> k s' g' = Some x"
    by auto
  then show ?case by blast
next
  case (Alt a b)
  show ?case
  proof (cases "bt kd a s g k")
    case None
    with Alt.prems have "bt kd b s g k = Some x" by simp
    from Alt.IH(2)[OF this] show ?thesis by auto
  next
    case (Some y)
    with Alt.prems have "bt kd a s g k = Some x" by simp
    from Alt.IH(1)[OF this] show ?thesis by auto
  qed
next
  case Eol
  then have "(s = [] \<or> s = [CHR 0x0A]) \<and> k s g = Some x" by (simp split: if_splits)
  then have "s = [] @ s \<and> sem kd Eol [] s g g \<and> k s g = Some x" by simp
  then show ?case by blast
qed

lemma match_at_sound:
  assumes "match_at kd r s = Some m"
  shows "s = group0 m @ after m \<and> sem kd r (group0 m) (after m) Map.empty (named m)"
proof -
  let ?k = "\<lambda>s' g. Some \<lparr>group0 = take (length s - length s') s, named = g, after = s'\<rparr>"
  from assms have "bt kd r s Map.empty ?k = Some m" by (simp add: match_at_def)
  from bt_sound[OF this] obtain w s' g' where
    w: "s = w @ s'" "sem kd r w s' Map.empty g'" and m: "?k s' g' = Some m"
    by blast
  from m w(1) have "m = \<lparr>group0 = w, named = g', after = s'\<rparr>" by simp
  with w show ?thesis by simp
qed

lemma search_sound:
  "search kd r s = Some m \<Longrightarrow>
   \<exists>pre. s = pre @ group0 m @ after m \<and> sem kd r (group0 m) (after m) Map.empty (named m)"
proof (induction s)
  case Nil
  then have "match_at kd r [] = Some m" by simp
  from match_at_sound[OF this]
  have "[] = [] @ group0 m @ after m \<and> sem kd r (group0 m) (after m) Map.empty (named m)"
    by auto
  then show ?case by (rule exI)
next
  case (Cons c cs)
  show ?case
  proof (cases "match_at kd r (c # cs)")
    case (Some m')
    with Cons.prems have "match_at kd r (c # cs) = Some m" by simp
    from match_at_sound[OF this]
    have "c # cs = [] @ group0 m @ after m \<and> sem kd r (group0 m) (after m) Map.empty (named m)"
      by simp
    then show ?thesis by (rule exI)
  next
    case None
    with Cons.prems have "search kd r cs = Some m" by simp
    from Cons.IH[OF this] obtain pre where
      "cs = pre @ group0 m @ after m" "sem kd r (group0 m) (after m) Map.empty (named m)" by blast
    then have "c # cs = (c # pre) @ group0 m @ after m \<and> sem kd r (group0 m) (after m) Map.empty (named m)"
      by simp
    then show ?thesis by (rule exI)
  qed
qed

text \<open>\<^verbatim>\<open>search\<close> returns the match at the leftmost position that has one.\<close>

lemma search_leftmost:
  "search kd r s = Some m \<Longrightarrow>
   \<exists>pre. s = pre @ group0 m @ after m \<and> match_at kd r (group0 m @ after m) = Some m
     \<and> (\<forall>p q. pre = p @ q \<and> q \<noteq> [] \<longrightarrow> match_at kd r (q @ group0 m @ after m) = None)"
proof (induction s)
  case Nil
  then have m: "match_at kd r [] = Some m" by simp
  from match_at_sound[OF m] have "group0 m @ after m = []" by simp
  with m have "[] = [] @ group0 m @ after m \<and> match_at kd r (group0 m @ after m) = Some m
     \<and> (\<forall>p q. [] = p @ q \<and> q \<noteq> [] \<longrightarrow> match_at kd r (q @ group0 m @ after m) = None)"
    by simp
  then show ?case by (rule exI)
next
  case (Cons c cs)
  show ?case
  proof (cases "match_at kd r (c # cs)")
    case (Some m')
    with Cons.prems have m: "match_at kd r (c # cs) = Some m" by simp
    from match_at_sound[OF m] have "c # cs = group0 m @ after m" by simp
    with m have "c # cs = [] @ group0 m @ after m \<and> match_at kd r (group0 m @ after m) = Some m
       \<and> (\<forall>p q. [] = p @ q \<and> q \<noteq> [] \<longrightarrow> match_at kd r (q @ group0 m @ after m) = None)"
      by simp
    then show ?thesis by (rule exI)
  next
    case None
    with Cons.prems have "search kd r cs = Some m" by simp
    from Cons.IH[OF this] obtain pre where
      pre: "cs = pre @ group0 m @ after m" "match_at kd r (group0 m @ after m) = Some m"
      and left: "\<forall>p q. pre = p @ q \<and> q \<noteq> [] \<longrightarrow> match_at kd r (q @ group0 m @ after m) = None"
      by blast
    have "\<forall>p q. c # pre = p @ q \<and> q \<noteq> [] \<longrightarrow> match_at kd r (q @ group0 m @ after m) = None"
    proof (intro allI impI)
      fix p q assume pq: "c # pre = p @ q \<and> q \<noteq> []"
      show "match_at kd r (q @ group0 m @ after m) = None"
      proof (cases p)
        case Nil
        with pq pre(1) None show ?thesis by auto
      next
        case (Cons c' p')
        with pq have "pre = p' @ q \<and> q \<noteq> []" by simp
        with left show ?thesis by blast
      qed
    qed
    with pre have "c # cs = (c # pre) @ group0 m @ after m
       \<and> match_at kd r (group0 m @ after m) = Some m
       \<and> (\<forall>p q. c # pre = p @ q \<and> q \<noteq> [] \<longrightarrow> match_at kd r (q @ group0 m @ after m) = None)"
      by simp
    then show ?thesis by (rule exI)
  qed
qed


subsection \<open>The matcher misses nothing that the pattern describes\<close>

lemma greedy_complete:
  "w \<noteq> [] \<Longrightarrow> list_all P w \<Longrightarrow> k s' \<noteq> None \<Longrightarrow> greedy P (w @ s') k \<noteq> None"
proof (induction w)
  case Nil then show ?case by simp
next
  case (Cons c w)
  show ?case
  proof (cases "w = []")
    case True
    with Cons.prems show ?thesis by (auto split: option.splits)
  next
    case False
    with Cons have "greedy P (w @ s') k \<noteq> None" by simp
    with Cons.prems show ?thesis by (auto split: option.splits)
  qed
qed

lemma lazy_complete:
  "w \<noteq> [] \<Longrightarrow> list_all P w \<Longrightarrow> k s' \<noteq> None \<Longrightarrow> lazy P (w @ s') k \<noteq> None"
proof (induction w)
  case Nil then show ?case by simp
next
  case (Cons c w)
  show ?case
  proof (cases "w = []")
    case True
    with Cons.prems show ?thesis by (auto split: option.splits)
  next
    case False
    with Cons have "lazy P (w @ s') k \<noteq> None" by simp
    with Cons.prems show ?thesis by (auto split: option.splits)
  qed
qed

lemma exactly_complete:
  "list_all P w \<Longrightarrow> exactly (length w) P (w @ s') k = k s'"
  by (induction w) simp_all

lemma bt_complete:
  "sem kd r w s' g0 g0' \<Longrightarrow> (\<forall>g'. k s' g' \<noteq> None) \<Longrightarrow> bt kd r (w @ s') g k \<noteq> None"
proof (induction r arbitrary: w s' g0 g0' g k)
  case Eps then show ?case by simp
next
  case (Atom a) then show ?case by auto
next
  case (Plus a)
  then show ?case using greedy_complete[of w "atom_ok kd a" "\<lambda>s'. k s' g" s'] by simp
next
  case (PlusLazy a)
  then show ?case using lazy_complete[of w "atom_ok kd a" "\<lambda>s'. k s' g" s'] by simp
next
  case (Times n a)
  then show ?case using exactly_complete[of "atom_ok kd a" w s' "\<lambda>s'. k s' g"] by auto
next
  case (Group name r)
  from Group.prems(1) obtain g1 where "sem kd r w s' g0 g1" by auto
  moreover have "\<forall>g'. (\<lambda>s'' g''. k s'' (g''(name \<mapsto> take (length (w @ s') - length s'') (w @ s')))) s' g' \<noteq> None"
    using Group.prems(2) by simp
  ultimately have "bt kd r (w @ s') g (\<lambda>s'' g''. k s'' (g''(name \<mapsto> take (length (w @ s') - length s'') (w @ s')))) \<noteq> None"
    by (rule Group.IH)
  then show ?case by simp
next
  case (Seq a b)
  from Seq.prems(1) obtain u v g1 where
    w: "w = u @ v" and a: "sem kd a u (v @ s') g0 g1" and b: "sem kd b v s' g1 g0'" by auto
  have "\<forall>g'. bt kd b (v @ s') g' k \<noteq> None"
    using Seq.IH(2)[where k = k, OF b Seq.prems(2)] by simp
  then have "\<forall>g'. (\<lambda>s'' g''. bt kd b s'' g'' k) (v @ s') g' \<noteq> None" by simp
  with a have "bt kd a (u @ v @ s') g (\<lambda>s'' g''. bt kd b s'' g'' k) \<noteq> None"
    by (rule Seq.IH(1))
  with w show ?case by simp
next
  case (Alt a b)
  from Alt.prems(1) have "sem kd a w s' g0 g0' \<or> sem kd b w s' g0 g0'" by simp
  then show ?case
  proof
    assume "sem kd a w s' g0 g0'"
    from Alt.IH(1)[where k = k and g = g, OF this Alt.prems(2)] show ?thesis by (auto split: option.splits)
  next
    assume "sem kd b w s' g0 g0'"
    from Alt.IH(2)[where k = k and g = g, OF this Alt.prems(2)] show ?thesis by (auto split: option.splits)
  qed
next
  case Eol then show ?case by auto
qed

lemma match_at_complete:
  "sem kd r w s' g0 g0' \<Longrightarrow> match_at kd r (w @ s') \<noteq> None"
  unfolding match_at_def by (rule bt_complete) simp_all

lemma search_complete:
  "sem kd r w s' g0 g0' \<Longrightarrow> search kd r (pre @ w @ s') \<noteq> None"
proof (induction pre)
  case Nil
  from match_at_complete[OF Nil] show ?case by (cases "w @ s'") (auto split: option.splits)
next
  case (Cons c pre)
  then show ?case by (auto split: option.splits)
qed

subsection \<open>The first match of a repetition\<close>

















subsection \<open>The three patterns\<close>

lemma atom_ok_type_char [simp]: "atom_ok Str (Set [W, C CHR ''-'']) = type_char"
  by (rule ext) (simp add: type_char_def)

lemma atom_ok_id_char [simp]: "atom_ok Str (Set [W, C CHR ''-'', C CHR '' '']) = id_char"
  by (rule ext) (simp add: id_char_def)

lemma atom_ok_doi_char [simp]: "atom_ok Bytes (Set [W, C CHR ''-'', C CHR ''.'']) = doi_char"
  by (rule ext) (simp add: doi_char_def)

lemma atom_ok_digit [simp]: "atom_ok kd (One D) = ascii_digit"
  by (rule ext) simp

lemma list_all_Dot [simp]: "list_all (atom_ok kd Dot) w = (CHR 0x0A \<notin> set w)"
  by (induction w) auto

lemma not_type_char [simp]:
  "\<not> type_char CHR ''{''" "\<not> type_char CHR ''=''" "\<not> type_char CHR '',''" "\<not> type_char (CHR 0x0A)"
  by (simp_all add: type_char_def unicode_word_def ascii_word_def)

lemma not_id_char [simp]: "\<not> id_char CHR '',''" "\<not> id_char (CHR 0x0A)"
  by (simp_all add: id_char_def unicode_word_def ascii_word_def)



lemma sem_lit: "sem kd (lit l) w s' g g' = (w = l \<and> g' = g)"
  by (induction l arbitrary: w) (auto simp: lit_def cat_def)

lemma sem_cat_Nil: "sem kd (cat []) w s' g g' = (w = [] \<and> g' = g)"
  by (simp add: cat_def)

lemma sem_cat_Cons:
  "sem kd (cat (r # rs)) w s' g g' =
     (\<exists>u v g1. w = u @ v \<and> sem kd r u (v @ s') g g1 \<and> sem kd (cat rs) v s' g1 g')"
  by (simp add: cat_def)

lemma sem_parts:
  assumes "sem Str parts w s' g g'"
  shows "\<exists>t i a. w = ''@'' @ t @ ''{'' @ i @ '', '' @ a @ ''}''
           \<and> t \<noteq> [] \<and> list_all type_char t \<and> i \<noteq> [] \<and> list_all id_char i
           \<and> a \<noteq> [] \<and> CHR 0x0A \<notin> set a
           \<and> g' = g(''type'' \<mapsto> t, ''id'' \<mapsto> i, ''args'' \<mapsto> a)"
  using assms unfolding parts_def
  by (simp add: sem_cat_Cons sem_cat_Nil sem_lit) blast

lemma sem_parts_intro:
  assumes "t \<noteq> []" "list_all type_char t" "i \<noteq> []" "list_all id_char i" "a \<noteq> []" "CHR 0x0A \<notin> set a"
  shows "sem Str parts (''@'' @ t @ ''{'' @ i @ '', '' @ a @ ''}'') s' g
           (g(''type'' \<mapsto> t, ''id'' \<mapsto> i, ''args'' \<mapsto> a))"
proof -
  have 7: "sem Str (cat [lit ''}'']) ''}'' s' (g(''type'' \<mapsto> t, ''id'' \<mapsto> i, ''args'' \<mapsto> a))
             (g(''type'' \<mapsto> t, ''id'' \<mapsto> i, ''args'' \<mapsto> a))"
    by (simp add: sem_cat_Cons sem_cat_Nil sem_lit)
  have 6: "sem Str (cat [Group ''args'' (Plus Dot), lit ''}'']) (a @ ''}'') s'
             (g(''type'' \<mapsto> t, ''id'' \<mapsto> i)) (g(''type'' \<mapsto> t, ''id'' \<mapsto> i, ''args'' \<mapsto> a))"
    unfolding sem_cat_Cons[of _ "Group ''args'' (Plus Dot)"]
    using 7 assms by (intro exI[of _ a] exI[of _ "''}''"] exI[of _ "g(''type'' \<mapsto> t, ''id'' \<mapsto> i, ''args'' \<mapsto> a)"]) simp
  have 5: "sem Str (cat [lit '', '', Group ''args'' (Plus Dot), lit ''}'']) ('', '' @ a @ ''}'') s'
             (g(''type'' \<mapsto> t, ''id'' \<mapsto> i)) (g(''type'' \<mapsto> t, ''id'' \<mapsto> i, ''args'' \<mapsto> a))"
    unfolding sem_cat_Cons[of _ "lit '', ''"]
    using 6 by (intro exI[of _ "'', ''"] exI[of _ "a @ ''}''"] exI[of _ "g(''type'' \<mapsto> t, ''id'' \<mapsto> i)"]) (simp add: sem_lit)
  have 4: "sem Str (cat [Group ''id'' (Plus (Set [W, C CHR ''-'', C CHR '' ''])), lit '', '', Group ''args'' (Plus Dot), lit ''}''])
             (i @ '', '' @ a @ ''}'') s'
             (g(''type'' \<mapsto> t)) (g(''type'' \<mapsto> t, ''id'' \<mapsto> i, ''args'' \<mapsto> a))"
    unfolding sem_cat_Cons[of _ "Group ''id'' _"]
    using 5 assms by (intro exI[of _ i] exI[of _ "'', '' @ a @ ''}''"] exI[of _ "g(''type'' \<mapsto> t, ''id'' \<mapsto> i)"]) simp
  have 3: "sem Str (cat [lit ''{'', Group ''id'' (Plus (Set [W, C CHR ''-'', C CHR '' ''])), lit '', '', Group ''args'' (Plus Dot), lit ''}''])
             (''{'' @ i @ '', '' @ a @ ''}'') s'
             (g(''type'' \<mapsto> t)) (g(''type'' \<mapsto> t, ''id'' \<mapsto> i, ''args'' \<mapsto> a))"
    unfolding sem_cat_Cons[of _ "lit ''{''"]
    using 4 by (intro exI[of _ "''{''"] exI[of _ "i @ '', '' @ a @ ''}''"] exI[of _ "g(''type'' \<mapsto> t)"]) (simp add: sem_lit)
  have 2: "sem Str (cat [Group ''type'' (Plus (Set [W, C CHR ''-''])), lit ''{'', Group ''id'' (Plus (Set [W, C CHR ''-'', C CHR '' ''])), lit '', '', Group ''args'' (Plus Dot), lit ''}''])
             (t @ ''{'' @ i @ '', '' @ a @ ''}'') s'
             g (g(''type'' \<mapsto> t, ''id'' \<mapsto> i, ''args'' \<mapsto> a))"
    unfolding sem_cat_Cons[of _ "Group ''type'' _"]
    using 3 assms by (intro exI[of _ t] exI[of _ "''{'' @ i @ '', '' @ a @ ''}''"] exI[of _ "g(''type'' \<mapsto> t)"]) simp
  show ?thesis
    unfolding parts_def sem_cat_Cons[of _ "lit ''@''"]
    using 2 by (intro exI[of _ "''@''"] exI[of _ "t @ ''{'' @ i @ '', '' @ a @ ''}''"] exI[of _ g]) (simp add: sem_lit)
qed

lemma sem_keys:
  assumes "sem Str keys w s' g g'"
  shows "\<exists>k v sep. w = k @ ''={'' @ v @ ''}'' @ sep
           \<and> k \<noteq> [] \<and> list_all type_char k \<and> v \<noteq> [] \<and> CHR 0x0A \<notin> set v
           \<and> g' = g(''key'' \<mapsto> k, ''value'' \<mapsto> v, ''3'' \<mapsto> sep)"
  using assms unfolding keys_def
  by (simp add: sem_cat_Cons sem_cat_Nil sem_lit) blast

lemma sem_doi_regex:
  assumes "sem Bytes doi_regex w s' g g'"
  shows "\<exists>c ds sfx. w = ''10'' @ [c] @ ds @ ''/'' @ sfx \<and> c \<noteq> CHR 0x0A
           \<and> length ds = 4 \<and> list_all ascii_digit ds \<and> sfx \<noteq> [] \<and> list_all doi_char sfx"
  using assms unfolding doi_regex_def
  by (simp add: sem_cat_Cons sem_cat_Nil sem_lit) force

lemma sem_doi_regex_intro:
  assumes "c \<noteq> CHR 0x0A" "length ds = 4" "list_all ascii_digit ds" "sfx \<noteq> []" "list_all doi_char sfx"
  shows "sem Bytes doi_regex (''10'' @ [c] @ ds @ ''/'' @ sfx) s' g g"
proof -
  have 5: "sem Bytes (cat [Plus (Set [W, C CHR ''-'', C CHR ''.''])]) sfx s' g g"
    using assms by (simp add: sem_cat_Cons sem_cat_Nil)
  have 4: "sem Bytes (cat [lit ''/'', Plus (Set [W, C CHR ''-'', C CHR ''.''])]) (''/'' @ sfx) s' g g"
    unfolding sem_cat_Cons[of _ "lit ''/''"]
    using 5 by (intro exI[of _ "''/''"] exI[of _ sfx] exI[of _ g]) (simp add: sem_lit)
  have 3: "sem Bytes (cat [Times 4 (One D), lit ''/'', Plus (Set [W, C CHR ''-'', C CHR ''.''])])
             (ds @ ''/'' @ sfx) s' g g"
    unfolding sem_cat_Cons[of _ "Times 4 (One D)"]
    using 4 assms by (intro exI[of _ ds] exI[of _ "''/'' @ sfx"] exI[of _ g]) simp
  have 2: "sem Bytes (cat [Atom Dot, Times 4 (One D), lit ''/'', Plus (Set [W, C CHR ''-'', C CHR ''.''])])
             ([c] @ ds @ ''/'' @ sfx) s' g g"
    unfolding sem_cat_Cons[of _ "Atom Dot"]
    using 3 assms by (intro exI[of _ "[c]"] exI[of _ "ds @ ''/'' @ sfx"] exI[of _ g]) simp
  show ?thesis
    unfolding doi_regex_def sem_cat_Cons[of _ "lit ''10''"]
    using 2 by (intro exI[of _ "''10''"] exI[of _ "[c] @ ds @ ''/'' @ sfx"] exI[of _ g]) (simp add: sem_lit)
qed

subsection \<open>Texts that are not records\<close>

lemma search_parts_grammar:
  assumes "search Str parts text = Some m"
  shows "outer_grammar text"
proof -
  from search_sound[OF assms] obtain pre where
    p: "text = pre @ group0 m @ after m" "sem Str parts (group0 m) (after m) Map.empty (named m)"
    by blast
  from sem_parts[OF p(2)] obtain t i a where
    "group0 m = ''@'' @ t @ ''{'' @ i @ '', '' @ a @ ''}''"
    "t \<noteq> []" "list_all type_char t" "i \<noteq> []" "list_all id_char i" "a \<noteq> []" "CHR 0x0A \<notin> set a"
    by blast
  with p(1) have "text = pre @ ''@'' @ t @ ''{'' @ i @ '', '' @ a @ ''}'' @ after m
        \<and> t \<noteq> [] \<and> list_all type_char t \<and> i \<noteq> [] \<and> list_all id_char i \<and> a \<noteq> [] \<and> CHR 0x0A \<notin> set a"
    by simp
  then show ?thesis unfolding outer_grammar_def by blast
qed

text \<open>
  C6.  A text that does not match the outer grammar makes \<^verbatim>\<open>BibEntry(text)\<close> raise
  (\<^verbatim>\<open>match\<close> is \<^verbatim>\<open>None\<close>): the result is the error and no record.
\<close>

theorem malformed_record:
  assumes "\<not> outer_grammar text"
  shows "BibEntry text = Inl AttributeError"
proof (cases "search Str parts text")
  case None
  then show ?thesis by (simp add: BibEntry_def)
next
  case (Some m)
  from search_parts_grammar[OF this] assms show ?thesis by contradiction
qed

text \<open>Conversely, every text that matches the outer grammar is parsed.\<close>

lemma grammar_parses:
  assumes "outer_grammar text"
  shows "\<exists>b. BibEntry text = Inr b"
proof -
  from assms obtain pre t i a post where
    t: "text = pre @ (''@'' @ t @ ''{'' @ i @ '', '' @ a @ ''}'') @ post"
    and c: "t \<noteq> []" "list_all type_char t" "i \<noteq> []" "list_all id_char i" "a \<noteq> []" "CHR 0x0A \<notin> set a"
    unfolding outer_grammar_def by auto
  from search_complete[OF sem_parts_intro[OF c, of post Map.empty], of pre] t
  have "search Str parts text \<noteq> None" by simp
  then show ?thesis by (auto simp: BibEntry_def Let_def)
qed

lemma outer_grammar_at: "outer_grammar text \<Longrightarrow> CHR ''@'' \<in> set text"
  by (auto simp: outer_grammar_def)

theorem malformed_record_witness:
  "\<not> outer_grammar not_found_page \<and> BibEntry not_found_page = Inl AttributeError"
proof -
  have "CHR ''@'' \<notin> set not_found_page" by (simp add: not_found_page_def)
  with outer_grammar_at[of not_found_page] have h: "\<not> outer_grammar not_found_page" by blast
  from malformed_record[OF h] h show ?thesis by simp
qed

subsection \<open>Parsing a well-formed record\<close>


















subsection \<open>What a parsed record holds\<close>






text \<open>The groups that \<^verbatim>\<open>BibEntry\<close> reads are set by every match, and a match of \<^verbatim>\<open>keys\<close> shortens the input.\<close>

lemma parts_groups_set:
  assumes "search Str parts s = Some m"
  shows "named m ''type'' \<noteq> None \<and> named m ''id'' \<noteq> None \<and> named m ''args'' \<noteq> None"
proof -
  from search_sound[OF assms] sem_parts obtain t i a where
    "named m = Map.empty(''type'' \<mapsto> t, ''id'' \<mapsto> i, ''args'' \<mapsto> a)" by blast
  then show ?thesis by simp
qed

lemma keys_groups_set:
  assumes "search Str keys s = Some m"
  shows "named m ''key'' \<noteq> None \<and> named m ''value'' \<noteq> None \<and> length (after m) < length s"
proof -
  from search_sound[OF assms] obtain pre where
    p: "s = pre @ group0 m @ after m" "sem Str keys (group0 m) (after m) Map.empty (named m)"
    by blast
  from sem_keys[OF p(2)] obtain k v sep where
    "group0 m = k @ ''={'' @ v @ ''}'' @ sep"
    "named m = Map.empty(''key'' \<mapsto> k, ''value'' \<mapsto> v, ''3'' \<mapsto> sep)" by blast
  with p(1) show ?thesis by simp
qed



subsection \<open>The layout of a formatted entry\<close>

lemma foldl_format_step:
  "foldl (format_step E) acc kvs =
     acc @ concat (map field_line (filter (\<lambda>kv. fst kv \<notin> set E) kvs))"
  by (induction kvs arbitrary: acc) (simp_all add: format_step_def field_line_def)

lemma format_layout:
  "format R E = ''@'' @ type R @ ''{'' @ id' R @ '','' @
     concat (map field_line (filter (\<lambda>kv. fst kv \<notin> set E) (args R))) @ [CHR 0x0A] @ ''}''"
  by (simp add: format_def foldl_format_step)

lemma count_list_filter_fst:
  "count_list (map fst (filter (\<lambda>kv. fst kv \<notin> set E) kvs)) k =
     (if k \<in> set E then 0 else count_list (map fst kvs) k)"
  by (induction kvs) auto

lemma distinct_count_list: "distinct xs \<Longrightarrow> x \<in> set xs \<Longrightarrow> count_list xs x = 1"
  by (induction xs) (auto simp: count_list_0_iff)

text \<open>
  C4.  For a record \<open>R\<close> (a dict has distinct keys) and an exclusion list \<open>E\<close>,
  \<open>format R E\<close> is the header \<^verbatim>\<open>@type{key,\<close>, then the field lines of the fields whose
  name is not in \<open>E\<close>, in the order of the dict, then a newline and \<^verbatim>\<open>}\<close>.  No line
  carries a name of \<open>E\<close>, and every field whose name is not in \<open>E\<close> has exactly one
  line, with its value.
\<close>

theorem format_fields:
  assumes "distinct (map fst (args R))"
  shows "format R E = ''@'' @ type R @ ''{'' @ id' R @ '','' @
            concat (map field_line (filter (\<lambda>kv. fst kv \<notin> set E) (args R))) @ [CHR 0x0A] @ ''}''
         \<and> (\<forall>k \<in> set E. count_list (map fst (filter (\<lambda>kv. fst kv \<notin> set E) (args R))) k = 0)
         \<and> (\<forall>(k, v) \<in> set (args R). k \<notin> set E \<longrightarrow>
               count_list (map fst (filter (\<lambda>kv. fst kv \<notin> set E) (args R))) k = 1
               \<and> (k, v) \<in> set (filter (\<lambda>kv. fst kv \<notin> set E) (args R)))"
proof -
  let ?kept = "filter (\<lambda>kv. fst kv \<notin> set E) (args R)"
  have "\<forall>(k, v) \<in> set (args R). k \<notin> set E \<longrightarrow>
          count_list (map fst ?kept) k = 1 \<and> (k, v) \<in> set ?kept"
  proof (clarify)
    fix k v assume kv: "(k, v) \<in> set (args R)" and k: "k \<notin> set E"
    from kv have "k \<in> set (map fst (args R))" by force
    with assms k have 1: "count_list (map fst ?kept) k = 1"
      by (simp add: count_list_filter_fst distinct_count_list)
    from kv k have "(k, v) \<in> set ?kept" by simp
    with 1 show "count_list (map fst ?kept) k = 1 \<and> (k, v) \<in> set ?kept" by simp
  qed
  moreover have "\<forall>k \<in> set E. count_list (map fst ?kept) k = 0"
    by (simp add: count_list_filter_fst)
  ultimately show ?thesis using format_layout[of R E] by blast
qed

theorem format_fields_witness:
  "distinct (map fst (args smith2020))
   \<and> format smith2020 [''year''] =
       ''@article{smith2020,'' @ [CHR 0x0A] @ ''    title={A Study}'' @ [CHR 0x0A] @ ''}''"
proof -
  have d: "distinct (map fst (args smith2020))" by (simp add: smith2020_def)
  from format_fields[OF d, of "[''year'']"] d show ?thesis
    by (simp add: smith2020_def field_line_def)
qed

subsection \<open>Parsing what format wrote\<close>











subsection \<open>The DOI pattern\<close>

text \<open>What a token is, and when there is none.\<close>

lemma find_doi_token:
  assumes "find_doi out = Inr (Some doi)"
  shows "\<exists>pre c ds sfx post. out = pre @ ''10'' @ [c] @ ds @ ''/'' @ sfx @ post
           \<and> c \<noteq> CHR 0x0A \<and> length ds = 4 \<and> list_all ascii_digit ds
           \<and> sfx \<noteq> [] \<and> list_all doi_char sfx
           \<and> utf8_decode (''10'' @ [c] @ ds @ ''/'' @ sfx) = Some doi"
proof -
  from assms obtain m where m: "search Bytes doi_regex out = Some m"
    and d: "utf8_decode (group0 m) = Some doi"
    by (auto simp: find_doi_def split: option.splits)
  from search_sound[OF m] obtain pre where
    p: "out = pre @ group0 m @ after m" "sem Bytes doi_regex (group0 m) (after m) Map.empty (named m)"
    by blast
  from sem_doi_regex[OF p(2)] obtain c ds sfx where
    w: "group0 m = ''10'' @ [c] @ ds @ ''/'' @ sfx" "c \<noteq> CHR 0x0A" "length ds = 4"
       "list_all ascii_digit ds" "sfx \<noteq> []" "list_all doi_char sfx"
    by blast
  from p(1) w(1) have "out = pre @ ''10'' @ [c] @ ds @ ''/'' @ sfx @ after m" by simp
  with w d show ?thesis by metis
qed

lemma find_doi_none:
  "find_doi out = Inr None \<longleftrightarrow>
     \<not> (\<exists>pre c ds sfx post. out = pre @ ''10'' @ [c] @ ds @ ''/'' @ sfx @ post
           \<and> c \<noteq> CHR 0x0A \<and> length ds = 4 \<and> list_all ascii_digit ds
           \<and> sfx \<noteq> [] \<and> list_all doi_char sfx)"
proof
  assume n: "find_doi out = Inr None"
  then have s: "search Bytes doi_regex out = None"
    by (auto simp: find_doi_def split: option.splits)
  show "\<not> (\<exists>pre c ds sfx post. out = pre @ ''10'' @ [c] @ ds @ ''/'' @ sfx @ post
           \<and> c \<noteq> CHR 0x0A \<and> length ds = 4 \<and> list_all ascii_digit ds
           \<and> sfx \<noteq> [] \<and> list_all doi_char sfx)"
  proof
    assume "\<exists>pre c ds sfx post. out = pre @ ''10'' @ [c] @ ds @ ''/'' @ sfx @ post
           \<and> c \<noteq> CHR 0x0A \<and> length ds = 4 \<and> list_all ascii_digit ds
           \<and> sfx \<noteq> [] \<and> list_all doi_char sfx"
    then obtain pre c ds sfx post where
      o: "out = pre @ (''10'' @ [c] @ ds @ ''/'' @ sfx) @ post"
      and w: "c \<noteq> CHR 0x0A" "length ds = 4" "list_all ascii_digit ds" "sfx \<noteq> []" "list_all doi_char sfx"
      by auto
    from w have "sem Bytes doi_regex (''10'' @ [c] @ ds @ ''/'' @ sfx) post Map.empty Map.empty"
      by (rule sem_doi_regex_intro)
    from search_complete[OF this, of pre] o s show False by simp
  qed
next
  assume a: "\<not> (\<exists>pre c ds sfx post. out = pre @ ''10'' @ [c] @ ds @ ''/'' @ sfx @ post
           \<and> c \<noteq> CHR 0x0A \<and> length ds = 4 \<and> list_all ascii_digit ds
           \<and> sfx \<noteq> [] \<and> list_all doi_char sfx)"
  have "search Bytes doi_regex out = None"
  proof (cases "search Bytes doi_regex out")
    case None then show ?thesis .
  next
    case (Some m)
    from search_sound[OF Some] obtain pre where
      p: "out = pre @ group0 m @ after m" "sem Bytes doi_regex (group0 m) (after m) Map.empty (named m)"
      by blast
    from sem_doi_regex[OF p(2)] obtain c ds sfx where
      w: "group0 m = ''10'' @ [c] @ ds @ ''/'' @ sfx" "c \<noteq> CHR 0x0A" "length ds = 4"
         "list_all ascii_digit ds" "sfx \<noteq> []" "list_all doi_char sfx"
      by blast
    from p(1) w(1) have "out = pre @ ''10'' @ [c] @ ds @ ''/'' @ sfx @ after m" by simp
    with w a show ?thesis by metis
  qed
  then show "find_doi out = Inr None" by (simp add: find_doi_def)
qed

text \<open>
  C3.  The byte after \<^verbatim>\<open>10\<close> is matched by an unescaped dot, so it need not be a dot:
  \<^verbatim>\<open>b"p. 1012345/67"\<close> has no substring that starts with \<^verbatim>\<open>10.\<close>, and yet it yields
  the token \<^verbatim>\<open>1012345/67\<close>.
\<close>

theorem find_doi_any_third_byte:
  "find_doi ''p. 1012345/67'' = Inr (Some (map of_char ''1012345/67''))"
  by code_simp

text \<open>
  C2.  When that byte is not ASCII the first match is not valid UTF-8, and \<^verbatim>\<open>get_doi\<close>
  raises instead of returning the match or \<^verbatim>\<open>None\<close>: here the byte is 0xB7, the
  middle dot of Latin-1.
\<close>

theorem find_doi_undecodable:
  "find_doi (''Heft 10'' @ [CHR 0xB7] @ ''2014/15'') = Inl UnicodeDecodeError"
  by code_simp

subsection \<open>Choosing the converter\<close>

lemma os_path_split_no_slash:
  assumes "CHR ''/'' \<notin> set program"
  shows "os_path_split program = ([], program)"
proof -
  have t: "takeWhile (\<lambda>c. c \<noteq> CHR ''/'') (rev program) = rev program"
    using assms by (intro takeWhile_eq_all_conv[THEN iffD2]) auto
  have d: "dropWhile (\<lambda>c. c \<noteq> CHR ''/'') (rev program) = []"
    using assms by auto
  show ?thesis unfolding os_path_split_def t d by simp
qed

lemma which_no_slash:
  "CHR ''/'' \<notin> set program \<Longrightarrow> environ_PATH e = Some p \<Longrightarrow>
   which e program = Inr (which_paths e program (split p CHR '':''))"
  by (simp add: which_def os_path_split_no_slash)

lemma which_paths_first:
  "\<forall>d' \<in> set pre. \<not> is_exe e (candidate d' program) \<Longrightarrow> is_exe e (candidate d program) \<Longrightarrow>
   which_paths e program (pre @ d # post) = Some (candidate d program)"
  by (induction pre) (simp_all add: candidate_def)

lemma which_paths_none:
  "\<forall>d \<in> set dirs. \<not> is_exe e (candidate d program) \<Longrightarrow> which_paths e program dirs = None"
  by (induction dirs) (simp_all add: candidate_def)

lemma os_path_join_nonempty: "b \<noteq> [] \<Longrightarrow> os_path_join a b \<noteq> []"
  by (auto simp: os_path_join_def split: list.splits)

lemma os_path_join_absolute:
  "prefix ''/'' a \<Longrightarrow> \<not> prefix ''/'' b \<Longrightarrow> prefix ''/'' (os_path_join a b)"
  by (auto simp: os_path_join_def prefix_def split: list.splits)

lemma init_loop_found:
  assumes "environ_PATH e = Some p" "CHR ''/'' \<notin> set program" "program \<noteq> []"
      and "split p CHR '':'' = dpre @ d # dpost"
      and "\<forall>d' \<in> set dpre. \<not> is_exe e (candidate d' program)"
      and "is_exe e (candidate d program)"
  shows "init_loop e ((program # cargs) # rest) = Inr \<lparr>converter = candidate d program # cargs\<rparr>"
proof -
  have "which e program = Inr (Some (candidate d program))"
    using assms by (simp add: which_no_slash which_paths_first)
  moreover have "candidate d program \<noteq> []"
    using assms(3) by (simp add: candidate_def os_path_join_nonempty)
  ultimately show ?thesis by simp
qed

lemma init_loop_skip:
  assumes "environ_PATH e = Some p" "CHR ''/'' \<notin> set program"
      and "\<forall>d \<in> set (split p CHR '':''). \<not> is_exe e (candidate d program)"
  shows "init_loop e ((program # cargs) # rest) = init_loop e rest"
proof -
  have "which e program = Inr None"
    using assms by (simp add: which_no_slash which_paths_none)
  then show ?thesis by simp
qed

text \<open>With neither converter in any directory of PATH, \<^verbatim>\<open>PDFParser()\<close> raises.\<close>

lemma discover_none:
  assumes "environ_PATH e = Some p"
      and "\<forall>d \<in> set (split p CHR '':''). \<not> is_exe e (candidate d ''pdftotext'')"
      and "\<forall>d \<in> set (split p CHR '':''). \<not> is_exe e (candidate d ''pdftohtml'')"
  shows "PDFParser e = Inl Exception"
proof -
  have "PDFParser e = init_loop e [''pdftohtml'' # [''-stdout'', ''-i'', ''-l'', ''1'', ''{pdf}'']]"
    unfolding PDFParser_def converters_def
    using assms(1,2) by (intro init_loop_skip[where p = p]) auto
  also have "\<dots> = init_loop e []"
    using assms(1,3) by (intro init_loop_skip[where p = p]) auto
  finally show ?thesis by simp
qed

lemma converters_split:
  assumes "converters = cpre @ (program # cargs) # cpost"
  shows "(cpre = [] \<and> program = ''pdftotext'' \<and> cargs = [''-l'', ''1'', ''{pdf}'', ''-''])
       \<or> (cpre = [[''pdftotext'', ''-l'', ''1'', ''{pdf}'', ''-'']] \<and> program = ''pdftohtml''
            \<and> cargs = [''-stdout'', ''-i'', ''-l'', ''1'', ''{pdf}''])"
proof (cases cpre)
  case Nil
  with assms show ?thesis by (simp add: converters_def)
next
  case (Cons c cs)
  note c = this
  show ?thesis
  proof (cases cs)
    case Nil
    with c assms show ?thesis by (simp add: converters_def)
  next
    case (Cons c' cs')
    with c assms show ?thesis by (simp add: converters_def)
  qed
qed

text \<open>
  C7, as the code has it.  With PATH set, \<^verbatim>\<open>PDFParser()\<close> binds the first converter, in
  the order \<^verbatim>\<open>pdftotext\<close>, \<^verbatim>\<open>pdftohtml\<close>, whose program is an executable regular file
  in some directory of PATH: converters before it are found in no directory, and the program
  name is replaced by \<^verbatim>\<open>os.path.join\<close> of the first directory that has it (double quotes
  stripped from the entry) and the name.  That path is absolute when the PATH entry is.
\<close>

theorem discover_first:
  assumes PATH: "environ_PATH e = Some p"
      and convs: "converters = cpre @ (program # cargs) # cpost"
      and earlier: "\<forall>c \<in> set cpre. \<forall>d \<in> set (split p CHR '':''). \<not> is_exe e (candidate d (hd c))"
      and dirs: "split p CHR '':'' = dpre @ d # dpost"
      and first: "\<forall>d' \<in> set dpre. \<not> is_exe e (candidate d' program)"
      and found: "is_exe e (candidate d program)"
  shows "PDFParser e = Inr \<lparr>converter = candidate d program # cargs\<rparr>
       \<and> (prefix ''/'' (strip d (CHR 0x22)) \<longrightarrow> prefix ''/'' (candidate d program))"
proof -
  from converters_split[OF convs]
  have prog: "CHR ''/'' \<notin> set program \<and> program \<noteq> [] \<and> \<not> prefix ''/'' program"
    by auto
  have abs: "prefix ''/'' (strip d (CHR 0x22)) \<longrightarrow> prefix ''/'' (candidate d program)"
    using prog by (simp add: candidate_def os_path_join_absolute)
  from converters_split[OF convs] have "PDFParser e = Inr \<lparr>converter = candidate d program # cargs\<rparr>"
  proof
    assume a: "cpre = [] \<and> program = ''pdftotext'' \<and> cargs = [''-l'', ''1'', ''{pdf}'', ''-'']"
    with convs have "PDFParser e = init_loop e ((program # cargs) # cpost)"
      by (simp add: PDFParser_def)
    also have "\<dots> = Inr \<lparr>converter = candidate d program # cargs\<rparr>"
      using prog PATH dirs first found by (intro init_loop_found) auto
    finally show ?thesis .
  next
    assume a: "cpre = [[''pdftotext'', ''-l'', ''1'', ''{pdf}'', ''-'']] \<and> program = ''pdftohtml''
            \<and> cargs = [''-stdout'', ''-i'', ''-l'', ''1'', ''{pdf}'']"
    with convs have "PDFParser e = init_loop e ((''pdftotext'' # [''-l'', ''1'', ''{pdf}'', ''-'']) # (program # cargs) # cpost)"
      by (simp add: PDFParser_def)
    also have "\<dots> = init_loop e ((program # cargs) # cpost)"
      using PATH earlier a by (intro init_loop_skip[where p = p]) auto
    also have "\<dots> = Inr \<lparr>converter = candidate d program # cargs\<rparr>"
      using prog PATH dirs first found by (intro init_loop_found) auto
    finally show ?thesis .
  qed
  with abs show ?thesis by blast
qed

theorem discover_first_witness:
  "is_exe env0 (candidate ''/usr/bin'' ''pdftotext'')
   \<and> is_exe env0 (candidate ''/usr/bin'' ''pdftohtml'')
   \<and> PDFParser env0 = Inr \<lparr>converter = [''/usr/bin/pdftotext'', ''-l'', ''1'', ''{pdf}'', ''-'']\<rparr>
   \<and> \<not> is_exe env_html (candidate ''/usr/local/bin'' ''pdftotext'')
   \<and> \<not> is_exe env_html (candidate ''/opt/poppler/bin'' ''pdftotext'')
   \<and> \<not> is_exe env_html (candidate ''/usr/local/bin'' ''pdftohtml'')
   \<and> is_exe env_html (candidate ''/opt/poppler/bin'' ''pdftohtml'')
   \<and> PDFParser env_html
       = Inr \<lparr>converter = [''/opt/poppler/bin/pdftohtml'', ''-stdout'', ''-i'', ''-l'', ''1'', ''{pdf}'']\<rparr>"
proof -
  have 1: "environ_PATH env0 = Some ''/usr/local/bin:/usr/bin''" by (simp add: env0_def)
  have 2: "converters = [] @ (''pdftotext'' # [''-l'', ''1'', ''{pdf}'', ''-''])
             # [[''pdftohtml'', ''-stdout'', ''-i'', ''-l'', ''1'', ''{pdf}'']]"
    by (simp add: converters_def)
  have 3: "\<forall>c \<in> set ([] :: string list list).
             \<forall>d \<in> set (split ''/usr/local/bin:/usr/bin'' CHR '':''). \<not> is_exe env0 (candidate d (hd c))"
    by simp
  have 4: "split ''/usr/local/bin:/usr/bin'' CHR '':'' = [''/usr/local/bin''] @ ''/usr/bin'' # []"
    by code_simp
  have c1: "candidate ''/usr/local/bin'' ''pdftotext'' = ''/usr/local/bin/pdftotext''" by code_simp
  have c2: "candidate ''/usr/bin'' ''pdftotext'' = ''/usr/bin/pdftotext''" by code_simp
  have c3: "candidate ''/usr/bin'' ''pdftohtml'' = ''/usr/bin/pdftohtml''" by code_simp
  have 5: "\<forall>d' \<in> set [''/usr/local/bin'']. \<not> is_exe env0 (candidate d' ''pdftotext'')"
    by (simp add: c1 is_exe_def env0_def)
  have 6: "is_exe env0 (candidate ''/usr/bin'' ''pdftotext'')"
    by (simp add: c2 is_exe_def env0_def)
  have 7: "is_exe env0 (candidate ''/usr/bin'' ''pdftohtml'')"
    by (simp add: c3 is_exe_def env0_def)
  note a = discover_first[OF 1 2 3 4 5 6, THEN conjunct1, unfolded c2]
  have h1: "environ_PATH env_html = Some ''/usr/local/bin:/opt/poppler/bin''"
    by (simp add: env_html_def)
  have h2: "converters = [[''pdftotext'', ''-l'', ''1'', ''{pdf}'', ''-'']]
             @ (''pdftohtml'' # [''-stdout'', ''-i'', ''-l'', ''1'', ''{pdf}'']) # []"
    by (simp add: converters_def)
  have h4: "split ''/usr/local/bin:/opt/poppler/bin'' CHR '':''
              = [''/usr/local/bin''] @ ''/opt/poppler/bin'' # []"
    by code_simp
  have d1: "candidate ''/usr/local/bin'' ''pdftohtml'' = ''/usr/local/bin/pdftohtml''" by code_simp
  have d2: "candidate ''/opt/poppler/bin'' ''pdftohtml'' = ''/opt/poppler/bin/pdftohtml''" by code_simp
  have d3: "candidate ''/opt/poppler/bin'' ''pdftotext'' = ''/opt/poppler/bin/pdftotext''" by code_simp
  have n1: "\<not> is_exe env_html (candidate ''/usr/local/bin'' ''pdftotext'')"
    by (simp add: c1 is_exe_def env_html_def)
  have n2: "\<not> is_exe env_html (candidate ''/opt/poppler/bin'' ''pdftotext'')"
    by (simp add: d3 is_exe_def env_html_def)
  have n3: "\<not> is_exe env_html (candidate ''/usr/local/bin'' ''pdftohtml'')"
    by (simp add: d1 is_exe_def env_html_def)
  have h3: "\<forall>c \<in> set [[''pdftotext'', ''-l'', ''1'', ''{pdf}'', ''-'']].
             \<forall>d \<in> set (split ''/usr/local/bin:/opt/poppler/bin'' CHR '':'').
               \<not> is_exe env_html (candidate d (hd c))"
    using n1 n2 by (simp add: h4)
  have h5: "\<forall>d' \<in> set [''/usr/local/bin'']. \<not> is_exe env_html (candidate d' ''pdftohtml'')"
    using n3 by simp
  have h6: "is_exe env_html (candidate ''/opt/poppler/bin'' ''pdftohtml'')"
    by (simp add: d2 is_exe_def env_html_def)
  note b = discover_first[OF h1 h2 h3 h4 h5 h6, THEN conjunct1, unfolded d2]
  from 6 7 a n1 n2 n3 h6 b show ?thesis by (intro conjI)
qed

theorem discover_relative_counterexample:
  "PDFParser env_relative = Inr \<lparr>converter = [''bin/pdftotext'', ''-l'', ''1'', ''{pdf}'', ''-'']\<rparr>
   \<and> \<not> prefix ''/'' ''bin/pdftotext''"
  by code_simp

subsection \<open>Gathering and processing the files\<close>

text \<open>A run over the directory \<^verbatim>\<open>lib\<close> with \<^verbatim>\<open>-e file,url\<close>: one file without a DOI, one entry written.\<close>

lemma main_example:
  "main env1 args_lib st0 =
     (None,
      \<lparr>output' = [''@article{smith2020,'' @ [CHR 0x0A] @ ''    title={A Study}'' @ [CHR 0x0A]
                     @ ''    year={2020}'' @ [CHR 0x0A] @ ''}'',
                   [CHR 0x0A, CHR 0x0A]],
       console = [Analyzing ''lib/a.pdf'', No_DOI_found,
                  Analyzing ''lib/b.pdf'', Found_DOI (map of_char ''10.1000/xyz123''),
                  Fetching_Metadata, Wrote_Entry]\<rparr>)"
  by code_simp

lemma foldl_walk:
  "foldl (\<lambda>f (path, _, files). f @ map (os_path_join path) (filter (contains ''.pdf'') files)) f ws
   = f @ concat (map (\<lambda>(path, dirs, files). map (os_path_join path) (filter (contains ''.pdf'') files)) ws)"
  by (induction ws arbitrary: f) (auto)

lemma gather_file: "loc \<in> set locs \<Longrightarrow> isfile e loc \<Longrightarrow> gather e locs f = Inl AttributeError"
  by (induction locs arbitrary: f) auto

lemma gather_no_file:
  "\<forall>loc \<in> set locs. \<not> isfile e loc \<Longrightarrow>
   gather e locs f = Inr (f @ concat (map (walked e) (filter (isdir e) locs)))"
  by (induction locs arbitrary: f) (auto simp: foldl_walk walked_def)

text \<open>
  C9.  Gathering raises \<^verbatim>\<open>AttributeError\<close> as soon as one location is a regular file,
  and otherwise returns the files found by walking the locations that are directories.  With
  a regular file among the locations \<^verbatim>\<open>main\<close> ends in an exception and leaves the state
  as it was: no file is analysed and nothing is written.
\<close>

theorem gather_regular_file:
  "gather e (location a) [] =
     (if \<exists>loc \<in> set (location a). isfile e loc then Inl AttributeError
      else Inr (concat (map (walked e) (filter (isdir e) (location a)))))
   \<and> ((\<exists>loc \<in> set (location a). isfile e loc) \<longrightarrow>
        (\<exists>err. main e a st = (Some err, st)))"
proof -
  have 1: "gather e (location a) [] =
     (if \<exists>loc \<in> set (location a). isfile e loc then Inl AttributeError
      else Inr (concat (map (walked e) (filter (isdir e) (location a)))))"
    using gather_file[of _ "location a" e "[]"] gather_no_file[of "location a" e "[]"]
    by auto
  then have "(\<exists>loc \<in> set (location a). isfile e loc) \<longrightarrow> (\<exists>err. main e a st = (Some err, st))"
    by (auto simp: main_def split: sum.splits)
  with 1 show ?thesis by blast
qed

theorem gather_regular_file_witness:
  "(\<exists>loc \<in> set (location args_file). isfile env0 loc)
   \<and> gather env0 (location args_file) [] = Inl AttributeError
   \<and> main env0 args_file st0 = (Some AttributeError, st0)"
proof -
  have f: "\<exists>loc \<in> set (location args_file). isfile env0 loc"
    by (simp add: args_file_def env0_def)
  have p: "PDFParser env0 = Inr parser0" unfolding parser0_def by code_simp
  from gather_regular_file[of env0 args_file st0] f
  have g: "gather env0 (location args_file) [] = Inl AttributeError" by simp
  then have "main env0 args_file st0 = (Some AttributeError, st0)"
    by (simp add: main_def p)
  with f g show ?thesis by blast
qed









end
